theory Spec2Isabelle
  imports Main "HOL-Library.Char_ord"
begin

section \<open>Strings and regular expressions\<close>

text \<open>
  The Python module \<^verbatim>\<open>github_actions.py\<close> works on \<^verbatim>\<open>str\<close> values. They are modelled as
  \<^typ>\<open>string\<close>, a \<^typ>\<open>char\<close> for each character of the text. (HOL has 256 characters
  and Python has more. The module compares characters with ASCII characters and with
  each other only, and every character class of its patterns is a set of ASCII characters,
  so all other characters behave alike.)

  The module uses three patterns of Python's \<^verbatim>\<open>re\<close>; they are built from character
  classes, negated classes, literal text, concatenation, the greedy star and the greedy
  repetition \<^verbatim>\<open>{n,}\<close>.
\<close>

datatype cls_item = CRange char char | CChar char

fun cls_mem :: "cls_item \<Rightarrow> char \<Rightarrow> bool" where
  "cls_mem (CRange lo hi) c = (lo \<le> c \<and> c \<le> hi)"
| "cls_mem (CChar d) c = (c = d)"

definition in_cls :: "cls_item list \<Rightarrow> char \<Rightarrow> bool" where
  "in_cls items c = list_ex (\<lambda>i. cls_mem i c) items"

datatype rexp =
    Cls "cls_item list"
  | NCls "cls_item list"
  | Lit string
  | Seq rexp rexp
  | Star rexp
  | AtLeast nat rexp

text \<open>
  \<open>rmatch r s\<close> lists, in the order in which a backtracking matcher tries them, the
  remainders of \<open>s\<close> after each way of matching \<open>r\<close> at the start of \<open>s\<close>. The head of
  the list is the match that \<^verbatim>\<open>re\<close> reports; the list is empty when there is no match.
  A greedy star first tries one more iteration and falls back to stopping; an iteration
  that consumes nothing ends the repetition, so the length of the text bounds the number
  of iterations.
\<close>

primrec star_iter :: "(string \<Rightarrow> string list) \<Rightarrow> nat \<Rightarrow> string \<Rightarrow> string list" where
  "star_iter f 0 s = [s]"
| "star_iter f (Suc n) s =
     concat (map (star_iter f n) (filter (\<lambda>t. length t < length s) (f s))) @ [s]"

primrec rep_iter :: "(string \<Rightarrow> string list) \<Rightarrow> nat \<Rightarrow> string \<Rightarrow> string list" where
  "rep_iter f 0 s = [s]"
| "rep_iter f (Suc n) s = concat (map (rep_iter f n) (f s))"

primrec rmatch :: "rexp \<Rightarrow> string \<Rightarrow> string list" where
  "rmatch (Cls items) =
     (\<lambda>s. case s of [] \<Rightarrow> [] | c # cs \<Rightarrow> if in_cls items c then [cs] else [])"
| "rmatch (NCls items) =
     (\<lambda>s. case s of [] \<Rightarrow> [] | c # cs \<Rightarrow> if in_cls items c then [] else [cs])"
| "rmatch (Lit l) = (\<lambda>s. if take (length l) s = l then [drop (length l) s] else [])"
| "rmatch (Seq a b) = (\<lambda>s. concat (map (rmatch b) (rmatch a s)))"
| "rmatch (Star a) = (\<lambda>s. star_iter (rmatch a) (length s) s)"
| "rmatch (AtLeast n a) =
     (\<lambda>s. concat (map (\<lambda>t. star_iter (rmatch a) (length t) t) (rep_iter (rmatch a) n s)))"

text \<open>
  \<^verbatim>\<open>re.search\<close> with a pattern that begins with \<^verbatim>\<open>^\<close> (no MULTILINE flag) can only match
  at position 0. The result is the matched text, or \<open>None\<close>.
\<close>

definition re_search_anchored :: "rexp \<Rightarrow> string \<Rightarrow> string option" where
  "re_search_anchored r s =
     (case rmatch r s of [] \<Rightarrow> None | t # _ \<Rightarrow> Some (take (length s - length t) s))"

text \<open>
  \<^verbatim>\<open>re.sub(pattern, repl, s)\<close> and \<^verbatim>\<open>re.findall(pattern, s)\<close> scan \<open>s\<close> from left to right:
  where the pattern matches, the match is replaced (collected) and the scan goes on behind
  it; elsewhere the scan moves on by one character.
\<close>

fun re_sub :: "rexp \<Rightarrow> string \<Rightarrow> string \<Rightarrow> string" where
  "re_sub r repl s = (case rmatch r s of
      t # _ \<Rightarrow> (if length t < length s then repl @ re_sub r repl t
                else (case s of [] \<Rightarrow> repl | c # cs \<Rightarrow> repl @ c # re_sub r repl cs))
    | [] \<Rightarrow> (case s of [] \<Rightarrow> [] | c # cs \<Rightarrow> c # re_sub r repl cs))"

fun re_findall :: "rexp \<Rightarrow> string \<Rightarrow> string list" where
  "re_findall r s = (case rmatch r s of
      t # _ \<Rightarrow> (if length t < length s then take (length s - length t) s # re_findall r t
                else (case s of [] \<Rightarrow> [[]] | c # cs \<Rightarrow> [] # re_findall r cs))
    | [] \<Rightarrow> (case s of [] \<Rightarrow> [] | c # cs \<Rightarrow> re_findall r cs))"

text \<open>\<^verbatim>\<open>sep.join(xs)\<close> and \<^verbatim>\<open>s.startswith(p)\<close>.\<close>

fun join :: "string \<Rightarrow> string list \<Rightarrow> string" where
  "join sep [] = []"
| "join sep [x] = x"
| "join sep (x # y # ys) = x @ sep @ join sep (y # ys)"

definition startswith :: "string \<Rightarrow> string \<Rightarrow> bool" where
  "startswith s p = (take (length p) s = p)"

definition endswith :: "string \<Rightarrow> string \<Rightarrow> bool" where
  "endswith s p = (length p \<le> length s \<and> drop (length s - length p) s = p)"

section \<open>The event payload and its cache\<close>

text \<open>
  \<^verbatim>\<open>json.loads\<close> returns a Python value; JSON \<^verbatim>\<open>null\<close> becomes \<^verbatim>\<open>None\<close>, which is also the
  initial content of the cache slot \<^verbatim>\<open>self._event\<close>. The model keeps the two identified,
  as Python does: \<open>JNull\<close> is \<^verbatim>\<open>None\<close>. (Numbers of the payload are integers.)
\<close>

datatype json = JNull | JBool bool | JNum int | JStr string | JArr "json list"
  | JObj "(string \<times> json) list"

datatype py_error =
    OSError
  | JSONDecodeError
  | TypeError
  | RuntimeError string
  | IndexError
  | KeyError
  | HTTPError

text \<open>
  The state of a \<^verbatim>\<open>CachedGitHubActionEvent\<close> object: the slot \<^verbatim>\<open>_event\<close>, and the number of
  times the payload file has been opened so far. \<open>rd k\<close> is what opening, reading and
  parsing the file named by \<^verbatim>\<open>GITHUB_EVENT_PATH\<close> gives at the \<open>k\<close>-th attempt: the parsed
  value, or the exception raised.
\<close>

record event_cache =
  event_slot :: json
  file_reads :: nat

definition CachedGitHubActionEvent_init :: event_cache where
  "CachedGitHubActionEvent_init = \<lparr>event_slot = JNull, file_reads = 0\<rparr>"

definition CachedGitHubActionEvent_call ::
    "(nat \<Rightarrow> py_error + json) \<Rightarrow> event_cache \<Rightarrow> (py_error + json) \<times> event_cache" where
  "CachedGitHubActionEvent_call rd c =
     (if event_slot c = JNull then
        (case rd (file_reads c) of
           Inl e \<Rightarrow> (Inl e, c\<lparr>file_reads := Suc (file_reads c)\<rparr>)
         | Inr v \<Rightarrow> (Inr v, c\<lparr>event_slot := v, file_reads := Suc (file_reads c)\<rparr>))
      else (Inr (event_slot c), c))"

text \<open>
  Every use of the cache in the module has the form \<^verbatim>\<open>GH_EVENT()["pull_request"]...\<close>: the
  value that the call returns is subscripted at once. \<open>v[key]\<close> raises \<^verbatim>\<open>KeyError\<close> when a
  dictionary has no such key and \<^verbatim>\<open>TypeError\<close> when \<open>v\<close> is not a dictionary (the pairs of a
  \<open>JObj\<close> are the items of the dictionary). Nothing in the module catches an exception of
  the call or of the subscription: it ends the process.
\<close>

definition subscript :: "json \<Rightarrow> string \<Rightarrow> py_error + json" where
  "subscript v key =
     (case v of
        JObj kvs \<Rightarrow> (case map_of kvs key of None \<Rightarrow> Inl KeyError | Some x \<Rightarrow> Inr x)
      | _ \<Rightarrow> Inl TypeError)"

text \<open>
  \<^verbatim>\<open>GH_EVENT()["pull_request"]\<close>: the value that the call returned and its member, or
  the exception.
\<close>

definition GH_EVENT_pull_request ::
    "(nat \<Rightarrow> py_error + json) \<Rightarrow> event_cache \<Rightarrow> (py_error + json \<times> json) \<times> event_cache" where
  "GH_EVENT_pull_request rd c =
     (case CachedGitHubActionEvent_call rd c of
        (Inl e, c') \<Rightarrow> (Inl e, c')
      | (Inr v, c') \<Rightarrow>
          (case subscript v ''pull_request'' of
             Inl e \<Rightarrow> (Inl e, c')
           | Inr p \<Rightarrow> (Inr (v, p), c')))"

text \<open>
  A process makes such accesses one after the other, until it ends or one of them raises:
  the results of \<open>n\<close> accesses, or the exception that ended the process, and the final
  state of the cache.
\<close>

fun accesses :: "(nat \<Rightarrow> py_error + json) \<Rightarrow> nat \<Rightarrow> event_cache
    \<Rightarrow> (py_error + (json \<times> json) list) \<times> event_cache" where
  "accesses rd 0 c = (Inr [], c)"
| "accesses rd (Suc n) c =
     (case GH_EVENT_pull_request rd c of
        (Inl e, c') \<Rightarrow> (Inl e, c')
      | (Inr r, c') \<Rightarrow>
          (case accesses rd n c' of
             (Inl e, c'') \<Rightarrow> (Inl e, c'')
           | (Inr rs, c'') \<Rightarrow> (Inr (r # rs), c'')))"

text \<open>
  The other operations read fields of the payload that \<^verbatim>\<open>GH_EVENT()\<close> returns. They are
  modelled on a loaded payload, as a record of the fields used: the labels of the pull
  request, the sha of its head commit and the API URL of the head repository. (The
  repository names and the number of the pull request only select the pull request and
  the commit that the platform state below describes.)
\<close>

record event =
  ev_title :: string
  ev_labels :: "string list"
  ev_head_sha :: string
  ev_head_repo_url :: string

section \<open>The platform and the file system\<close>

text \<open>
  What the operations read and change outside the process: the title of the pull request
  as the API gives it, its issue comments in the order in which the API lists them
  (a new comment comes last), the statuses of the head commit (the most recent first, as
  \<^verbatim>\<open>get_status\<close> documents), the write requests sent to the API, the temporary directories
  that exist and the calls of \<^verbatim>\<open>rmtree\<close>. A comment is identified by its position in the
  list. API requests are taken to succeed except where the source checks the response
  (\<^verbatim>\<open>raise_for_status\<close>); console output is not modelled.
\<close>

record status =
  st_state :: string
  st_description :: string
  st_context :: string

record annotation =
  path :: string
  start_line :: int
  end_line :: int
  start_column :: int
  end_column :: int
  annotation_level :: string
  message :: string

record check_run =
  cr_name :: string
  cr_head_sha :: string
  cr_status :: string
  cr_conclusion :: string
  cr_output_title :: string
  cr_output_summary :: string
  cr_output_annotations :: "annotation list"

datatype api_call =
    CreateIssueComment string
  | EditComment nat string
  | CreateStatus status
  | Post string check_run

record world =
  pr_title :: string
  issue_comments :: "string list"
  commit_statuses :: "status list"
  api_log :: "api_call list"
  tempdirs :: "string list"
  rmtree_log :: "string list"

definition JIRA_URL :: string where
  "JIRA_URL = ''https://yabba.atlassian.net/browse''"

definition WIP_CONTEXT :: string where
  "WIP_CONTEXT = ''Draft''"

definition WIP_LABEL :: string where
  "WIP_LABEL = ''draft''"

definition LINTERS :: "(string \<times> (string \<times> string list) list) list" where
  "LINTERS =
     [(''flake8-plain'', [(''py'', [''flake8'', ''--statistics'']),
                          (''ipynb'', [''flake8'', ''--append-config'', ''.flake8_append_notebooks'',
                                       ''--statistics''])]),
      (''flake8-json'', [(''py'', [''flake8'', ''--format=json'']),
                         (''ipynb'', [''flake8'', ''--append-config'', ''.flake8_append_notebooks'',
                                      ''--format=json''])])]"

definition get_pr_title :: "world \<Rightarrow> string" where
  "get_pr_title w = pr_title w"

definition get_pr_labels :: "event \<Rightarrow> string list" where
  "get_pr_labels ev = ev_labels ev"

text \<open>\<^verbatim>\<open>get_status\<close>: the first status of the listing with the given context, if any.\<close>

fun get_status :: "string \<Rightarrow> status list \<Rightarrow> status option" where
  "get_status ctx [] = None"
| "get_status ctx (st # sts) = (if st_context st = ctx then Some st else get_status ctx sts)"

definition create_status :: "string \<Rightarrow> string \<Rightarrow> string \<Rightarrow> world \<Rightarrow> world" where
  "create_status s d ctx w =
     (let st = \<lparr>st_state = s, st_description = d, st_context = ctx\<rparr>
      in w\<lparr>commit_statuses := st # commit_statuses w, api_log := api_log w @ [CreateStatus st]\<rparr>)"

definition create_issue_comment :: "string \<Rightarrow> world \<Rightarrow> world" where
  "create_issue_comment b w =
     w\<lparr>issue_comments := issue_comments w @ [b], api_log := api_log w @ [CreateIssueComment b]\<rparr>"

definition edit_comment :: "nat \<Rightarrow> string \<Rightarrow> world \<Rightarrow> world" where
  "edit_comment i b w =
     w\<lparr>issue_comments := (issue_comments w)[i := b], api_log := api_log w @ [EditComment i b]\<rparr>"

section \<open>Tagged comments\<close>

text \<open>
  \<^verbatim>\<open>tag = re.sub('[^a-zA-Z0-9_-]', '_', tag)  # normalize\<close>
\<close>

definition tag_chars :: "cls_item list" where
  "tag_chars = [CRange CHR ''a'' CHR ''z'', CRange CHR ''A'' CHR ''Z'',
                CRange CHR ''0'' CHR ''9'', CChar CHR ''_'', CChar CHR ''-'']"

definition normalize_tag :: "string \<Rightarrow> string" where
  "normalize_tag tag = re_sub (NCls tag_chars) ''_'' tag"

definition html_tag_of :: "string \<Rightarrow> string" where
  "html_tag_of tag = ''<!-- CWTag: '' @ tag @ '' -->''"

definition full_body_of :: "string \<Rightarrow> string \<Rightarrow> string" where
  "full_body_of html_tag body = html_tag @ [CHR 0x0A] @ body"

text \<open>
  The loop over the comments of the pull request: \<open>i\<close> is the position of the comment
  at the head of the list. The result tells whether a comment with the marker was found.
\<close>

fun scan_comments :: "string \<Rightarrow> string \<Rightarrow> nat \<Rightarrow> string list \<Rightarrow> world \<Rightarrow> bool \<times> world" where
  "scan_comments html_tag full_body i [] w = (False, w)"
| "scan_comments html_tag full_body i (c # cs) w =
     (if startswith c html_tag then
        (True, if c = full_body then w else edit_comment i full_body w)
      else scan_comments html_tag full_body (Suc i) cs w)"

definition post_tagged_comment :: "string \<Rightarrow> string \<Rightarrow> world \<Rightarrow> world" where
  "post_tagged_comment tag body w =
     (let tag = normalize_tag tag;
          html_tag = html_tag_of tag;
          full_body = full_body_of html_tag body;
          (found, w') = scan_comments html_tag full_body 0 (issue_comments w) w
      in if \<not> found then create_issue_comment full_body w' else w')"

text \<open>For the statements: the comments that carry the marker of a tag, and the first one.\<close>

definition tagged :: "string \<Rightarrow> string \<Rightarrow> bool" where
  "tagged tag c = startswith c (html_tag_of (normalize_tag tag))"

definition count_tagged :: "string \<Rightarrow> world \<Rightarrow> nat" where
  "count_tagged tag w = length (filter (tagged tag) (issue_comments w))"

definition first_tagged :: "string \<Rightarrow> world \<Rightarrow> nat" where
  "first_tagged tag w = length (takeWhile (\<lambda>c. \<not> tagged tag c) (issue_comments w))"

section \<open>Title validator\<close>

text \<open>
  \<^verbatim>\<open>re.search("^(([A-Z]{2,}-[1-9][0-9]*, )*([A-Z]{2,}-[1-9][0-9]*)): ", title)\<close> and
  \<^verbatim>\<open>re.findall("[A-Z]{2,}-[1-9][0-9]*", m.group(1))\<close>. Group 1 of the first pattern is
  all of the match but its last two characters, the colon and the space.
\<close>

definition ticket_re :: rexp where
  "ticket_re = Seq (AtLeast 2 (Cls [CRange CHR ''A'' CHR ''Z'']))
                 (Seq (Lit ''-'') (Seq (Cls [CRange CHR ''1'' CHR ''9''])
                    (Star (Cls [CRange CHR ''0'' CHR ''9'']))))"

definition title_re :: rexp where
  "title_re = Seq (Seq (Star (Seq ticket_re (Lit '', ''))) ticket_re) (Lit '': '')"

definition check_pr_title :: "string option \<Rightarrow> world \<Rightarrow> int \<times> world" where
  "check_pr_title title w =
     (let title = (case title of None \<Rightarrow> get_pr_title w | Some t \<Rightarrow> t)
      in case re_search_anchored title_re title of
           None \<Rightarrow> (1, w)
         | Some m \<Rightarrow>
             (let group1 = take (length m - 2) m;
                  jira_keys = re_findall ticket_re group1;
                  msg = ''Connected Jira: '' @
                        join '', '' (map (\<lambda>jk. ''['' @ jk @ '']('' @ JIRA_URL @ ''/'' @ jk @ '')'')
                                       jira_keys)
              in (0, post_tagged_comment ''jira'' msg w)))"

text \<open>
  The pattern in the words of the specification: one or more ticket references
  \<^verbatim>\<open>KEY-NUMBER\<close>, separated by a comma and a space, then a colon and a space, then any text.
  A key is two or more upper-case ASCII letters; a number is a positive integer written
  without a leading zero.
\<close>

definition upper :: "char \<Rightarrow> bool" where
  "upper c = (CHR ''A'' \<le> c \<and> c \<le> CHR ''Z'')"

definition digit :: "char \<Rightarrow> bool" where
  "digit c = (CHR ''0'' \<le> c \<and> c \<le> CHR ''9'')"

definition is_key :: "string \<Rightarrow> bool" where
  "is_key k = (2 \<le> length k \<and> list_all upper k)"

definition is_number :: "string \<Rightarrow> bool" where
  "is_number n =
     (case n of [] \<Rightarrow> False | d # ds \<Rightarrow> digit d \<and> d \<noteq> CHR ''0'' \<and> list_all digit ds)"

definition is_ticket_ref :: "string \<Rightarrow> bool" where
  "is_ticket_ref r = (\<exists>k n. is_key k \<and> is_number n \<and> r = k @ ''-'' @ n)"

definition title_matches_spec :: "string \<Rightarrow> bool" where
  "title_matches_spec title =
     (\<exists>refs rest. refs \<noteq> [] \<and> list_all is_ticket_ref refs \<and>
        title = join '', '' refs @ '': '' @ rest)"

section \<open>Draft-state synchroniser\<close>

text \<open>
  \<open>was_wip\<close> is \<^verbatim>\<open>None\<close> or a boolean, \<open>is_wip\<close> is a boolean; Python's \<^verbatim>\<open>is_wip != was_wip\<close>
  compares the two values, and a boolean is never equal to \<^verbatim>\<open>None\<close>.
\<close>

definition check_wip :: "event \<Rightarrow> world \<Rightarrow> int \<times> world" where
  "check_wip ev w =
     (let was_wip = (case get_status WIP_CONTEXT (commit_statuses w) of
                       Some st \<Rightarrow> Some (st_state st \<noteq> ''success'')
                     | None \<Rightarrow> None);
          is_wip = (WIP_LABEL \<in> set (get_pr_labels ev))
      in if Some is_wip \<noteq> was_wip then
           (if is_wip then
              (0, create_status ''failure''
                    (''Has the '' @ [CHR 0x22] @ WIP_LABEL @ [CHR 0x22] @ '' label'')
                    WIP_CONTEXT w)
            else
              (0, create_status ''success''
                    (''Does not have the '' @ [CHR 0x22] @ WIP_LABEL @ [CHR 0x22] @ '' label'')
                    WIP_CONTEXT w))
         else (0, w))"

section \<open>Lint runner\<close>

text \<open>
  What \<^verbatim>\<open>lint\<close> asks of the machine it runs on: the files a glob pattern yields, the exit
  code and output of a command (\<^verbatim>\<open>run_silent\<close>), whether a path is a file once the
  notebook converter has run, the real path of a file, the value of \<^verbatim>\<open>json.loads\<close> on a
  linter's output, the name \<^verbatim>\<open>mkdtemp\<close> returns, and whether the platform answers a POST
  with a success status. The output of the JSON linter, once parsed, maps file names to
  lists of findings, in the order of the document; a text that does not parse to this
  shape is an error of \<open>json_loads\<close>. File names are relative paths, as \<^verbatim>\<open>iglob\<close> yields them
  for a relative pattern.
\<close>

record finding =
  f_code :: string
  f_line_number :: int
  f_column_number :: int
  f_text :: string

type_synonym flake8_json = "(string \<times> finding list) list"

record lint_env =
  iglob :: "string \<Rightarrow> string list"
  run_silent :: "string list \<Rightarrow> int \<times> string"
  isfile :: "string \<Rightarrow> bool"
  realpath :: "string \<Rightarrow> string"
  json_loads :: "string \<Rightarrow> py_error + flake8_json"
  mkdtemp :: string
  post_ok :: "string \<Rightarrow> check_run \<Rightarrow> bool"

text \<open>A \<^verbatim>\<open>dict\<close> keeps its keys in the order of their insertion.\<close>

fun dict_get :: "('k \<times> 'v) list \<Rightarrow> 'k \<Rightarrow> 'v \<Rightarrow> 'v" where
  "dict_get [] k d = d"
| "dict_get ((k', v) # kvs) k d = (if k' = k then v else dict_get kvs k d)"

fun dict_set :: "'k \<Rightarrow> 'v \<Rightarrow> ('k \<times> 'v) list \<Rightarrow> ('k \<times> 'v) list" where
  "dict_set k v [] = [(k, v)]"
| "dict_set k v ((k', v') # kvs) =
     (if k' = k then (k, v) # kvs else (k', v') # dict_set k v kvs)"

text \<open>
  \<^verbatim>\<open>annotate_check\<close>: one POST to the check-runs URL of the head repository, then
  \<^verbatim>\<open>resp.raise_for_status()\<close>. The parameter \<open>check_name\<close> is not used by the source either.
\<close>

definition check_url :: "event \<Rightarrow> string" where
  "check_url ev = (let repo_url = ev_head_repo_url ev in repo_url @ ''/check-runs'')"

definition post_data :: "event \<Rightarrow> bool \<Rightarrow> annotation list \<Rightarrow> check_run" where
  "post_data ev success anns =
     (let sha = ev_head_sha ev
      in \<lparr>cr_name = ''flake8'',
          cr_head_sha = sha,
          cr_status = ''completed'',
          cr_conclusion = (if success then ''success'' else ''failure''),
          cr_output_title = ''Flake8'',
          cr_output_summary = ''Python code linted using [Flake8](http://flake8.pycqa.org/).'',
          cr_output_annotations = anns\<rparr>)"

definition annotate_check ::
    "lint_env \<Rightarrow> event \<Rightarrow> string \<Rightarrow> bool \<Rightarrow> annotation list \<Rightarrow> world \<Rightarrow> (py_error + unit) \<times> world" where
  "annotate_check env ev check_name success anns w =
     (let w' = w\<lparr>api_log := api_log w @ [Post (check_url ev) (post_data ev success anns)]\<rparr>
      in (if post_ok env (check_url ev) (post_data ev success anns) then Inr ()
          else Inl HTTPError, w'))"

definition use_linters :: "bool \<Rightarrow> string list" where
  "use_linters checks_api = (if checks_api then [''flake8-json''] else [''flake8-plain''])"

definition skipped :: "string \<Rightarrow> bool" where
  "skipped fn =
     (let root_dir = takeWhile (\<lambda>c. c \<noteq> CHR ''/'') fn
      in root_dir \<in> set [''dist'', ''build'', ''.ipynb_checkpoints''] \<or>
         startswith root_dir ''venv'')"

text \<open>
  The annotation of one finding. \<^verbatim>\<open>li["code"][0]\<close> raises \<^verbatim>\<open>IndexError\<close> on an empty code;
  for a single character \<open>c\<close>, \<^verbatim>\<open>c in "EW"\<close> holds when \<open>c\<close> is one of the two letters.
\<close>

definition annotation_of :: "string \<Rightarrow> finding \<Rightarrow> py_error + annotation" where
  "annotation_of fn li =
     (case f_code li of
        [] \<Rightarrow> Inl IndexError
      | c # _ \<Rightarrow>
          Inr \<lparr>path = fn,
               start_line = f_line_number li,
               end_line = f_line_number li,
               start_column = f_column_number li,
               end_column = f_column_number li,
               annotation_level = (if c \<in> set ''EW'' then ''failure'' else ''warning''),
               message = f_code li @ '': '' @ f_text li\<rparr>)"

fun append_annotations ::
    "string \<Rightarrow> finding list \<Rightarrow> annotation list \<Rightarrow> py_error + annotation list" where
  "append_annotations fn [] anns = Inr anns"
| "append_annotations fn (li # lis) anns =
     (case annotation_of fn li of
        Inl e \<Rightarrow> Inl e
      | Inr a \<Rightarrow> append_annotations fn lis (anns @ [a]))"

record lint_acc =
  bad :: "(string \<times> string list) list"
  annotations :: "annotation list"

text \<open>
  The first half of the body of the inner loop: the path to lint and the command, after
  the conversion of a notebook. \<^verbatim>\<open>fn[:-6]\<close> drops the extension \<^verbatim>\<open>.ipynb\<close>.
\<close>

definition prepare ::
    "lint_env \<Rightarrow> string \<Rightarrow> string \<Rightarrow> (string \<times> string list) list
      \<Rightarrow> py_error + (string \<times> string list)" where
  "prepare env fn linter_name linter_opts =
     (if endswith fn ''.ipynb'' then
        (let joined = mkdtemp env @ ''/'' @ fn;
             real_fn = take (length joined - 6) joined @ ''.py'';
             (rc, out) = run_silent env [''jupyter'', ''nbconvert'', fn, ''--to'', ''script'']
         in if rc \<noteq> 0 \<or> \<not> isfile env (take (length fn - 6) fn @ ''.py'')
            then Inl (RuntimeError ''Notebook conversion failed'')
            else Inr (real_fn, dict_get linter_opts ''ipynb'' [linter_name]))
      else Inr (realpath env fn, dict_get linter_opts ''py'' [linter_name]))"

definition lint_with ::
    "lint_env \<Rightarrow> bool \<Rightarrow> string \<Rightarrow> string \<times> (string \<times> string list) list \<Rightarrow> lint_acc
      \<Rightarrow> py_error + lint_acc" where
  "lint_with env checks_api fn linter acc =
     (let (linter_name, linter_opts) = linter
      in if linter_name \<notin> set (use_linters checks_api) then Inr acc
         else
           (case prepare env fn linter_name linter_opts of
              Inl e \<Rightarrow> Inl e
            | Inr (real_fn, linter_cmd) \<Rightarrow>
                (let (rc, out) = run_silent env (linter_cmd @ [real_fn])
                 in if rc = 0 then Inr acc
                    else
                      (case (if checks_api then
                               (case json_loads env out of
                                  Inl e \<Rightarrow> Inl e
                                | Inr [] \<Rightarrow> Inl IndexError
                                | Inr ((k, linter_out) # _) \<Rightarrow>
                                    append_annotations fn linter_out (annotations acc))
                             else Inr (annotations acc)) of
                         Inl e \<Rightarrow> Inl e
                       | Inr anns \<Rightarrow>
                           Inr \<lparr>bad = dict_set fn (dict_get (bad acc) fn [] @ [linter_name])
                                        (bad acc),
                                annotations = anns\<rparr>))))"

fun lint_linters ::
    "lint_env \<Rightarrow> bool \<Rightarrow> string \<Rightarrow> (string \<times> (string \<times> string list) list) list \<Rightarrow> lint_acc
      \<Rightarrow> py_error + lint_acc" where
  "lint_linters env checks_api fn [] acc = Inr acc"
| "lint_linters env checks_api fn (linter # linters) acc =
     (case lint_with env checks_api fn linter acc of
        Inl e \<Rightarrow> Inl e
      | Inr acc' \<Rightarrow> lint_linters env checks_api fn linters acc')"

fun lint_files :: "lint_env \<Rightarrow> bool \<Rightarrow> string list \<Rightarrow> lint_acc \<Rightarrow> py_error + lint_acc" where
  "lint_files env checks_api [] acc = Inr acc"
| "lint_files env checks_api (fn # fns) acc =
     (if skipped fn then lint_files env checks_api fns acc
      else
        (case lint_linters env checks_api fn LINTERS acc of
           Inl e \<Rightarrow> Inl e
         | Inr acc' \<Rightarrow> lint_files env checks_api fns acc'))"

definition make_tempdir :: "lint_env \<Rightarrow> world \<Rightarrow> world" where
  "make_tempdir env w = w\<lparr>tempdirs := mkdtemp env # tempdirs w\<rparr>"

definition rmtree :: "string \<Rightarrow> world \<Rightarrow> world" where
  "rmtree d w = w\<lparr>tempdirs := removeAll d (tempdirs w), rmtree_log := rmtree_log w @ [d]\<rparr>"

definition matching_files :: "lint_env \<Rightarrow> string list \<Rightarrow> string list" where
  "matching_files env ext = concat (map (\<lambda>pattern. iglob env (''**/'' @ pattern)) ext)"

text \<open>
  \<^verbatim>\<open>lint\<close>. An exception raised in the loop leaves the function at once: the statements
  after the loop are not run.
\<close>

definition lint ::
    "lint_env \<Rightarrow> event \<Rightarrow> string list \<Rightarrow> bool \<Rightarrow> world \<Rightarrow> (py_error + int) \<times> world" where
  "lint env ev ext checks_api w =
     (let w1 = make_tempdir env w;
          tempdir = mkdtemp env
      in case lint_files env checks_api (matching_files env ext)
                \<lparr>bad = [], annotations = []\<rparr> of
           Inl e \<Rightarrow> (Inl e, w1)
         | Inr acc \<Rightarrow>
             (let w2 = rmtree tempdir w1
              in if bad acc \<noteq> [] then
                   (if checks_api then
                      (case annotate_check env ev ''flake8'' False (annotations acc) w2 of
                         (Inl e, w3) \<Rightarrow> (Inl e, w3)
                       | (Inr u, w3) \<Rightarrow> (Inr 1, w3))
                    else (Inr 1, w2))
                 else if checks_api then
                   (case annotate_check env ev ''flake8'' True [] w2 of
                      (Inl e, w3) \<Rightarrow> (Inl e, w3)
                    | (Inr u, w3) \<Rightarrow> (Inr 0, w3))
                 else (Inr 0, w2)))"

definition lint_py :: "lint_env \<Rightarrow> event \<Rightarrow> world \<Rightarrow> (py_error + int) \<times> world" where
  "lint_py env ev w = lint env ev [''*.py''] True w"

definition lint_notebooks :: "lint_env \<Rightarrow> event \<Rightarrow> world \<Rightarrow> (py_error + int) \<times> world" where
  "lint_notebooks env ev w = lint env ev [''*.ipynb''] True w"

definition lint_all :: "lint_env \<Rightarrow> event \<Rightarrow> world \<Rightarrow> (py_error + int) \<times> world" where
  "lint_all env ev w = lint env ev [''*.py'', ''*.ipynb''] True w"

section \<open>Notions used in the statements\<close>

text \<open>
  The language of a pattern: the texts it matches, whatever the order in which a matcher
  tries them. \<open>rems L s\<close> are the remainders of \<open>s\<close> behind a prefix in \<open>L\<close>.
\<close>

inductive_set star :: "string set \<Rightarrow> string set" for L :: "string set" where
  star_nil: "[] \<in> star L"
| star_step: "w \<in> L \<Longrightarrow> v \<in> star L \<Longrightarrow> w @ v \<in> star L"

definition conc :: "string set \<Rightarrow> string set \<Rightarrow> string set" where
  "conc A B = {a @ b | a b. a \<in> A \<and> b \<in> B}"

primrec lpow :: "string set \<Rightarrow> nat \<Rightarrow> string set" where
  "lpow L 0 = {[]}"
| "lpow L (Suc n) = conc L (lpow L n)"

primrec lang :: "rexp \<Rightarrow> string set" where
  "lang (Cls items) = {[c] | c. in_cls items c}"
| "lang (NCls items) = {[c] | c. \<not> in_cls items c}"
| "lang (Lit l) = {l}"
| "lang (Seq a b) = conc (lang a) (lang b)"
| "lang (Star a) = star (lang a)"
| "lang (AtLeast n a) = conc (lpow (lang a) n) (star (lang a))"

definition rems :: "string set \<Rightarrow> string \<Rightarrow> string set" where
  "rems L s = {t. \<exists>w \<in> L. s = w @ t}"

text \<open>The full body of a tagged comment: the hidden marker of the normalised tag, then the body.\<close>

definition full_body_for :: "string \<Rightarrow> string \<Rightarrow> string" where
  "full_body_for tag body = full_body_of (html_tag_of (normalize_tag tag)) body"

text \<open>
  Whether the pull request is a draft now (it has the label), whether the recorded status
  was failing (\<open>None\<close> when there is no status in the context), and the status that
  \<open>check_wip\<close> writes for a draft and for a pull request that is not one.
\<close>

definition is_draft :: "event \<Rightarrow> bool" where
  "is_draft ev = (WIP_LABEL \<in> set (ev_labels ev))"

definition was_failing :: "world \<Rightarrow> bool option" where
  "was_failing w = map_option (\<lambda>st. st_state st \<noteq> ''success'')
                     (get_status WIP_CONTEXT (commit_statuses w))"

definition draft_status :: "bool \<Rightarrow> status" where
  "draft_status d =
     (if d then \<lparr>st_state = ''failure'',
                 st_description = ''Has the '' @ [CHR 0x22] @ WIP_LABEL @ [CHR 0x22] @ '' label'',
                 st_context = WIP_CONTEXT\<rparr>
      else \<lparr>st_state = ''success'',
            st_description =
              ''Does not have the '' @ [CHR 0x22] @ WIP_LABEL @ [CHR 0x22] @ '' label'',
            st_context = WIP_CONTEXT\<rparr>)"






section \<open>Concrete inputs\<close>

definition w_empty :: world where
  "w_empty = \<lparr>pr_title = ''JIRA-42: fix'', issue_comments = [], commit_statuses = [],
               api_log = [], tempdirs = [], rmtree_log = []\<rparr>"

definition w_commented :: world where
  "w_commented = w_empty\<lparr>issue_comments :=
     [''LGTM'', ''<!-- CWTag: jira -->'' @ [CHR 0x0A] @ ''Connected Jira: none'']\<rparr>"

definition ev_plain :: event where
  "ev_plain = \<lparr>ev_title = ''JIRA-42: fix'', ev_labels = [''bug''], ev_head_sha = ''0a1b2c'',
                ev_head_repo_url = ''https://api.github.com/repos/o/r''\<rparr>"

definition event_json :: json where
  "event_json = JObj [(''action'', JStr ''opened''),
                      (''pull_request'', JObj [(''number'', JNum 7), (''title'', JStr ''JIRA-42: fix'')])]"

definition event_file :: "nat \<Rightarrow> py_error + json" where
  "event_file k = Inr event_json"

definition finding_E501 :: finding where
  "finding_E501 = \<lparr>f_code = ''E501'', f_line_number = 3, f_column_number = 80,
                    f_text = ''line too long''\<rparr>"

text \<open>
  A working tree with one Python file, on which the linter reports one finding and exits
  with 1, and one with a single notebook whose conversion fails.
\<close>

definition env_py :: lint_env where
  "env_py = \<lparr>iglob = (\<lambda>p. if p = ''**/*.py'' then [''a.py''] else []),
             run_silent = (\<lambda>cmd. (1, ''flake8 findings'')),
             isfile = (\<lambda>p. True),
             realpath = (\<lambda>p. ''/work/'' @ p),
             json_loads = (\<lambda>s. Inr [(''a.py'', [finding_E501])]),
             mkdtemp = ''/tmp/tmpq1'',
             post_ok = (\<lambda>u d. True)\<rparr>"

definition acc_py :: lint_acc where
  "acc_py = \<lparr>bad = [(''a.py'', [''flake8-json''])],
             annotations = [\<lparr>path = ''a.py'', start_line = 3, end_line = 3, start_column = 80,
                             end_column = 80, annotation_level = ''failure'',
                             message = ''E501: line too long''\<rparr>]\<rparr>"

definition env_nb :: lint_env where
  "env_nb = \<lparr>iglob = (\<lambda>p. if p = ''**/*.ipynb'' then [''n.ipynb''] else []),
             run_silent = (\<lambda>cmd. (1, ''nbconvert: error'')),
             isfile = (\<lambda>p. False),
             realpath = (\<lambda>p. ''/work/'' @ p),
             json_loads = (\<lambda>s. Inl JSONDecodeError),
             mkdtemp = ''/tmp/tmpq2'',
             post_ok = (\<lambda>u d. True)\<rparr>"




section \<open>Patterns and their languages\<close>

lemma rems_conc: "rems (conc A B) s = (\<Union>t \<in> rems A s. rems B t)"
  by (fastforce simp: rems_def conc_def)

lemma star_iter_sound:
  assumes f: "\<And>s. set (f s) = rems L s"
  shows "set (star_iter f n s) \<subseteq> rems (star L) s"
proof (induction n arbitrary: s)
  case 0
  show ?case using star_nil[of L] by (auto simp: rems_def)
next
  case (Suc n)
  have "s \<in> rems (star L) s" using star_nil[of L] by (auto simp: rems_def)
  moreover have "t \<in> rems (star L) s" if u: "u \<in> set (f s)" and t: "t \<in> set (star_iter f n u)" for u t
  proof -
    from u f obtain w1 where w1: "w1 \<in> L" "s = w1 @ u" by (auto simp: rems_def)
    from t Suc.IH[of u] obtain w2 where w2: "w2 \<in> star L" "u = w2 @ t" by (auto simp: rems_def)
    from w1 w2 have "w1 @ w2 \<in> star L" by (auto intro: star_step)
    with w1 w2 show ?thesis by (auto simp: rems_def)
  qed
  ultimately show ?case by auto
qed

lemma star_iter_complete:
  assumes f: "\<And>s. set (f s) = rems L s"
  shows "w \<in> star L \<Longrightarrow> length (w @ t) \<le> n \<Longrightarrow> t \<in> set (star_iter f n (w @ t))"
proof (induction w arbitrary: n rule: star.induct)
  case star_nil
  then show ?case by (cases n) auto
next
  case (star_step w v)
  show ?case
  proof (cases "w = []")
    case True
    with star_step show ?thesis by simp
  next
    case False
    with star_step.prems obtain m where n: "n = Suc m" by (cases n) auto
    have "v @ t \<in> set (f (w @ v @ t))" using f star_step.hyps(1) by (auto simp: rems_def)
    moreover have "length (v @ t) < length (w @ v @ t)" using False by simp
    moreover have "t \<in> set (star_iter f m (v @ t))"
      using star_step.IH[of m] star_step.prems n False by (cases w) auto
    ultimately show ?thesis unfolding n by auto
  qed
qed

lemma star_iter_rems:
  assumes f: "\<And>s. set (f s) = rems L s"
  shows "set (star_iter f (length s) s) = rems (star L) s"
proof
  show "set (star_iter f (length s) s) \<subseteq> rems (star L) s" by (rule star_iter_sound[OF f])
  show "rems (star L) s \<subseteq> set (star_iter f (length s) s)"
    using star_iter_complete[OF f] by (auto simp: rems_def)
qed

lemma rep_iter_rems:
  assumes f: "\<And>s. set (f s) = rems L s"
  shows "set (rep_iter f n s) = rems (lpow L n) s"
proof (induction n arbitrary: s)
  case 0
  show ?case by (auto simp: rems_def)
next
  case (Suc n)
  show ?case by (simp add: rems_conc Suc.IH f)
qed

lemma rmatch_rems: "set (rmatch r s) = rems (lang r) s"
proof (induction r arbitrary: s)
  case (Cls x)
  then show ?case by (cases s) (auto simp: rems_def)
next
  case (NCls x)
  then show ?case by (cases s) (auto simp: rems_def)
next
  case (Lit x)
  show ?case by (auto simp: rems_def) (metis append_take_drop_id)
next
  case (Seq r1 r2)
  then show ?case by (simp add: rems_conc)
next
  case (Star r)
  then show ?case by (simp add: star_iter_rems)
next
  case (AtLeast n r)
  then show ?case by (simp add: rems_conc rep_iter_rems star_iter_rems)
qed

lemma star_chars: "star {[c] |c. P c} = {w. list_all P w}"
proof (intro set_eqI iffI)
  fix w assume "w \<in> star {[c] |c. P c}"
  then show "w \<in> {w. list_all P w}" by (induction rule: star.induct) auto
next
  fix w assume "w \<in> {w. list_all P w}"
  then have "list_all P w" by simp
  then show "w \<in> star {[c] |c. P c}"
  proof (induction w)
    case Nil
    show ?case by (rule star_nil)
  next
    case (Cons c cs)
    then have "[c] \<in> {[c] |c. P c}" "cs \<in> star {[c] |c. P c}" by auto
    then have "[c] @ cs \<in> star {[c] |c. P c}" by (rule star_step)
    then show ?case by simp
  qed
qed

lemma lpow_chars: "lpow {[c] |c. P c} n = {w. length w = n \<and> list_all P w}"
proof (induction n)
  case 0
  show ?case by auto
next
  case (Suc n)
  have "conc {[c] |c. P c} {w. length w = n \<and> list_all P w}
        = {w. length w = Suc n \<and> list_all P w}"
  proof (intro set_eqI iffI)
    fix w assume "w \<in> conc {[c] |c. P c} {w. length w = n \<and> list_all P w}"
    then show "w \<in> {w. length w = Suc n \<and> list_all P w}" by (auto simp: conc_def)
  next
    fix w assume "w \<in> {w. length w = Suc n \<and> list_all P w}"
    then obtain c cs where "w = [c] @ cs" "P c" "length cs = n" "list_all P cs"
      by (cases w) auto
    then show "w \<in> conc {[c] |c. P c} {w. length w = n \<and> list_all P w}"
      unfolding conc_def by blast
  qed
  then show ?case by (simp add: Suc.IH)
qed

lemma AtLeast_Cls:
  "lang (AtLeast n (Cls items)) = {w. n \<le> length w \<and> list_all (in_cls items) w}"
proof (intro set_eqI iffI)
  fix w assume "w \<in> lang (AtLeast n (Cls items))"
  then show "w \<in> {w. n \<le> length w \<and> list_all (in_cls items) w}"
    by (auto simp: conc_def lpow_chars star_chars)
next
  fix w assume "w \<in> {w. n \<le> length w \<and> list_all (in_cls items) w}"
  then have w: "n \<le> length w" "list_all (in_cls items) w" by auto
  have "take n w \<in> lpow {[c] |c. in_cls items c} n"
    using w by (auto simp: lpow_chars list_all_iff dest: in_set_takeD)
  moreover have "drop n w \<in> star {[c] |c. in_cls items c}"
    using w by (auto simp: star_chars list_all_iff dest: in_set_dropD)
  ultimately have "take n w @ drop n w \<in> lang (AtLeast n (Cls items))"
    unfolding lang.simps conc_def by blast
  then show "w \<in> lang (AtLeast n (Cls items))" by simp
qed

lemma in_cls_upper: "in_cls [CRange CHR ''A'' CHR ''Z''] c = upper c"
  by (simp add: in_cls_def upper_def)
lemma in_cls_digit: "in_cls [CRange CHR ''0'' CHR ''9''] c = digit c"
  by (simp add: in_cls_def digit_def)
lemma in_cls_digit19: "in_cls [CRange CHR ''1'' CHR ''9''] c = (digit c \<and> c \<noteq> CHR ''0'')"
proof -
  have "c \<noteq> CHR ''0'' \<longleftrightarrow> (of_char c :: nat) \<noteq> of_char CHR ''0''"
    by (simp only: of_char_eq_iff)
  then show ?thesis
    by (auto simp: in_cls_def digit_def less_eq_char_def)
qed

lemma in_cls_upper_fun: "in_cls [CRange CHR ''A'' CHR ''Z''] = upper"
  by (rule ext) (rule in_cls_upper)

lemma lang_number:
  "conc {[c] |c. in_cls [CRange CHR ''1'' CHR ''9''] c} (star {[c] |c. in_cls [CRange CHR ''0'' CHR ''9''] c})
     = {n. is_number n}"
proof (intro set_eqI iffI)
  fix n assume "n \<in> conc {[c] |c. in_cls [CRange CHR ''1'' CHR ''9''] c}
                        (star {[c] |c. in_cls [CRange CHR ''0'' CHR ''9''] c})"
  then show "n \<in> {n. is_number n}"
    by (auto simp: conc_def star_chars is_number_def in_cls_digit in_cls_digit19)
next
  fix n assume "n \<in> {n. is_number n}"
  then obtain d ds where "n = [d] @ ds" "digit d" "d \<noteq> CHR ''0''" "list_all digit ds"
    by (cases n) (auto simp: is_number_def)
  then show "n \<in> conc {[c] |c. in_cls [CRange CHR ''1'' CHR ''9''] c}
                        (star {[c] |c. in_cls [CRange CHR ''0'' CHR ''9''] c})"
    unfolding conc_def star_chars in_cls_digit in_cls_digit19 by blast
qed

lemma lang_ticket_re: "lang ticket_re = {r. is_ticket_ref r}"
proof -
  have "lang ticket_re = conc {k. is_key k} (conc {''-''} {n. is_number n})"
    unfolding ticket_re_def lang.simps(4) AtLeast_Cls
    by (simp add: lang_number in_cls_upper_fun is_key_def)
  also have "\<dots> = {r. is_ticket_ref r}"
    by (auto simp: conc_def is_ticket_ref_def)
  finally show ?thesis .
qed

lemma join_snoc: "join sep (xs @ [x]) = concat (map (\<lambda>y. y @ sep) xs) @ x"
  by (induction sep xs rule: join.induct) auto

lemma star_sep:
  "star (conc T {sep}) = {concat (map (\<lambda>y. y @ sep) xs) |xs. list_all (\<lambda>x. x \<in> T) xs}"
proof (intro set_eqI iffI)
  fix w assume "w \<in> star (conc T {sep})"
  then show "w \<in> {concat (map (\<lambda>y. y @ sep) xs) |xs. list_all (\<lambda>x. x \<in> T) xs}"
  proof (induction rule: star.induct)
    case star_nil
    have "[] = concat (map (\<lambda>y. y @ sep) []) \<and> list_all (\<lambda>x. x \<in> T) []" by simp
    then show ?case by blast
  next
    case (star_step w v)
    then obtain x xs where "w = x @ sep" "x \<in> T" "v = concat (map (\<lambda>y. y @ sep) xs)"
        "list_all (\<lambda>x. x \<in> T) xs"
      by (auto simp: conc_def)
    then have "w @ v = concat (map (\<lambda>y. y @ sep) (x # xs)) \<and> list_all (\<lambda>x. x \<in> T) (x # xs)"
      by simp
    then show ?case by blast
  qed
next
  fix w assume "w \<in> {concat (map (\<lambda>y. y @ sep) xs) |xs. list_all (\<lambda>x. x \<in> T) xs}"
  then obtain xs where w: "w = concat (map (\<lambda>y. y @ sep) xs)" and xs: "list_all (\<lambda>x. x \<in> T) xs"
    by auto
  from xs show "w \<in> star (conc T {sep})" unfolding w
  proof (induction xs)
    case Nil
    show ?case by (simp add: star_nil)
  next
    case (Cons x xs)
    then have "x @ sep \<in> conc T {sep}" "concat (map (\<lambda>y. y @ sep) xs) \<in> star (conc T {sep})"
      by (auto simp: conc_def)
    then have "(x @ sep) @ concat (map (\<lambda>y. y @ sep) xs) \<in> star (conc T {sep})"
      by (rule star_step)
    then show ?case by simp
  qed
qed

lemma lang_title_re:
  "lang title_re = {join '', '' refs @ '': '' |refs. refs \<noteq> [] \<and> list_all is_ticket_ref refs}"
proof (intro set_eqI iffI)
  fix w assume "w \<in> lang title_re"
  then obtain xs x where "w = (concat (map (\<lambda>y. y @ '', '') xs) @ x) @ '': ''"
      "list_all is_ticket_ref xs" "is_ticket_ref x"
    unfolding title_re_def lang.simps(4) lang.simps(5) lang.simps(3) lang_ticket_re star_sep
    by (auto simp: conc_def)
  then have "w = join '', '' (xs @ [x]) @ '': '' \<and> xs @ [x] \<noteq> [] \<and> list_all is_ticket_ref (xs @ [x])"
    by (simp add: join_snoc)
  then show "w \<in> {join '', '' refs @ '': '' |refs. refs \<noteq> [] \<and> list_all is_ticket_ref refs}"
    by blast
next
  fix w assume "w \<in> {join '', '' refs @ '': '' |refs. refs \<noteq> [] \<and> list_all is_ticket_ref refs}"
  then obtain refs where w: "w = join '', '' refs @ '': ''" "refs \<noteq> []" "list_all is_ticket_ref refs"
    by auto
  then obtain xs x where refs: "refs = xs @ [x]" by (cases refs rule: rev_cases) auto
  have "concat (map (\<lambda>y. y @ '', '') xs) \<in> star (conc {r. is_ticket_ref r} {'', ''})"
    unfolding star_sep using w(3) refs by auto
  moreover have "x \<in> {r. is_ticket_ref r}" using w(3) refs by simp
  ultimately have "(concat (map (\<lambda>y. y @ '', '') xs) @ x) @ '': '' \<in> lang title_re"
    unfolding title_re_def lang.simps(4) lang.simps(5) lang.simps(3) lang_ticket_re conc_def
    by blast
  then show "w \<in> lang title_re" by (simp add: w(1) refs join_snoc)
qed

lemma rmatch_title_re: "rmatch title_re title \<noteq> [] \<longleftrightarrow> title_matches_spec title"
proof -
  have "rmatch title_re title \<noteq> [] \<longleftrightarrow> set (rmatch title_re title) \<noteq> {}" by simp
  also have "\<dots> \<longleftrightarrow> (\<exists>w \<in> lang title_re. \<exists>rest. title = w @ rest)"
    unfolding rmatch_rems rems_def by auto
  also have "\<dots> \<longleftrightarrow> title_matches_spec title"
    unfolding lang_title_re title_matches_spec_def by auto
  finally show ?thesis .
qed


lemma fst_check_pr_title:
  "fst (check_pr_title (Some title) w) = (if rmatch title_re title = [] then 1 else 0)"
  by (simp add: check_pr_title_def re_search_anchored_def Let_def split: list.splits)

lemma title_JIRA_42: "rmatch title_re ''JIRA-42: fix'' \<noteq> []"
  by code_simp

lemma title_J_12: "rmatch title_re ''J-12: fix'' = []"
  by code_simp

lemma title_leading_space: "rmatch title_re '' JIRA-42: fix'' = []"
  by code_simp

lemma title_missing_space: "rmatch title_re ''JIRA-42:fix'' = []"
  by code_simp

lemma title_two_keys: "rmatch title_re ''JIRA-1, JIRA-2: fix'' \<noteq> []"
  by code_simp

text \<open>
  C1: for every title, \<open>check_pr_title\<close> returns 0 if the title begins with one or more
  ticket references \<^verbatim>\<open>KEY-NUMBER\<close> separated by a comma and a space and followed by a colon
  and a space, and returns 1 otherwise; the same holds for the title fetched from the API
  when none is given. The five titles of the specification give 0, 1, 1, 1 and 0.
\<close>

theorem check_pr_title_spec:
  "fst (check_pr_title (Some title) w) = (if title_matches_spec title then 0 else 1)
   \<and> fst (check_pr_title None w) = (if title_matches_spec (pr_title w) then 0 else 1)
   \<and> fst (check_pr_title (Some ''JIRA-42: fix'') w) = 0
   \<and> fst (check_pr_title (Some ''J-12: fix'') w) = 1
   \<and> fst (check_pr_title (Some '' JIRA-42: fix'') w) = 1
   \<and> fst (check_pr_title (Some ''JIRA-42:fix'') w) = 1
   \<and> fst (check_pr_title (Some ''JIRA-1, JIRA-2: fix'') w) = 0"
proof -
  have none: "check_pr_title None w = check_pr_title (Some (pr_title w)) w"
    by (simp add: check_pr_title_def get_pr_title_def)
  have gen: "fst (check_pr_title (Some t) w) = (if title_matches_spec t then 0 else 1)" for t
    unfolding fst_check_pr_title using rmatch_title_re[of t] by auto
  have cases:
    "fst (check_pr_title (Some ''JIRA-42: fix'') w) = 0"
    "fst (check_pr_title (Some ''J-12: fix'') w) = 1"
    "fst (check_pr_title (Some '' JIRA-42: fix'') w) = 1"
    "fst (check_pr_title (Some ''JIRA-42:fix'') w) = 1"
    "fst (check_pr_title (Some ''JIRA-1, JIRA-2: fix'') w) = 0"
    by (simp_all add: fst_check_pr_title title_JIRA_42 title_J_12 title_leading_space
          title_missing_space title_two_keys)
  from gen[of title] gen[of "pr_title w"] none cases show ?thesis by (intro conjI) simp_all
qed

theorem check_pr_title_spec_witness:
  "title_matches_spec ''JIRA-42: fix'' \<and> \<not> title_matches_spec ''J-12: fix''"
proof -
  have a: "fst (check_pr_title (Some ''JIRA-42: fix'') w_empty) = 0"
    by (simp add: fst_check_pr_title title_JIRA_42)
  have b: "fst (check_pr_title (Some ''J-12: fix'') w_empty) = 1"
    by (simp add: fst_check_pr_title title_J_12)
  from check_pr_title_spec[of "''JIRA-42: fix''" w_empty, THEN conjunct1]
  have "title_matches_spec ''JIRA-42: fix''" unfolding a by (simp split: if_splits)
  moreover from check_pr_title_spec[of "''J-12: fix''" w_empty, THEN conjunct1]
  have "\<not> title_matches_spec ''J-12: fix''" unfolding b by (simp split: if_splits)
  ultimately show ?thesis by simp
qed

section \<open>Properties of tagged comments\<close>

lemma re_sub_NCls:
  "re_sub (NCls items) repl s = concat (map (\<lambda>c. if in_cls items c then [c] else repl) s)"
  by (induction s) simp_all

lemma normalize_tag_map:
  "normalize_tag tag = map (\<lambda>c. if in_cls tag_chars c then c else CHR ''_'') tag"
  unfolding normalize_tag_def re_sub_NCls by (induction tag) simp_all

lemma underscore_in_tag_chars: "in_cls tag_chars CHR ''_''"
  by (simp add: in_cls_def tag_chars_def)

text \<open>
  C7: the normalisation of tags in \<open>post_tagged_comment\<close>, which replaces every character
  that is not an ASCII letter, a digit, an underscore or a hyphen by an underscore, is
  idempotent: normalising a normalised tag changes nothing.
\<close>

theorem normalize_tag_idempotent:
  "normalize_tag (normalize_tag tag) = normalize_tag tag
   \<and> normalize_tag tag = map (\<lambda>c. if in_cls tag_chars c then c else CHR ''_'') tag"
proof
  show "normalize_tag (normalize_tag tag) = normalize_tag tag"
    by (simp add: normalize_tag_map underscore_in_tag_chars)
  show "normalize_tag tag = map (\<lambda>c. if in_cls tag_chars c then c else CHR ''_'') tag"
    by (rule normalize_tag_map)
qed

lemma tagged_full_body: "tagged tag (full_body_for tag body)"
  by (simp add: tagged_def full_body_for_def full_body_of_def startswith_def)

lemma full_body_inj: "full_body_for tag body = full_body_for tag body' \<longleftrightarrow> body = body'"
  by (simp add: full_body_for_def full_body_of_def)

lemma scan_comments_none:
  "\<forall>c \<in> set cs. \<not> startswith c h \<Longrightarrow> scan_comments h f i cs w = (False, w)"
  by (induction cs arbitrary: i) auto

lemma scan_comments_found:
  "\<exists>c \<in> set cs. startswith c h \<Longrightarrow>
   scan_comments h f i cs w =
     (True, if cs ! length (takeWhile (\<lambda>c. \<not> startswith c h) cs) = f then w
            else edit_comment (i + length (takeWhile (\<lambda>c. \<not> startswith c h) cs)) f w)"
proof (induction cs arbitrary: i)
  case Nil
  then show ?case by simp
next
  case (Cons a cs)
  show ?case
  proof (cases "startswith a h")
    case True
    then show ?thesis by simp
  next
    case False
    with Cons.prems have "\<exists>c \<in> set cs. startswith c h" by auto
    from Cons.IH[OF this, of "Suc i"] False show ?thesis by simp
  qed
qed

lemma length_takeWhile_lt: "\<exists>x \<in> set xs. \<not> P x \<Longrightarrow> length (takeWhile P xs) < length xs"
  by (induction xs) auto

lemma count_tagged_0: "count_tagged tag w = 0 \<longleftrightarrow> (\<forall>c \<in> set (issue_comments w). \<not> tagged tag c)"
  by (auto simp: count_tagged_def filter_empty_conv)

lemma first_tagged_lt:
  "count_tagged tag w \<noteq> 0 \<Longrightarrow> first_tagged tag w < length (issue_comments w)"
  unfolding count_tagged_0 first_tagged_def
  by (rule length_takeWhile_lt) simp

lemma first_tagged_tagged:
  "count_tagged tag w \<noteq> 0 \<Longrightarrow> tagged tag (issue_comments w ! first_tagged tag w)"
  using first_tagged_lt[of tag w] nth_length_takeWhile[of "\<lambda>c. \<not> tagged tag c" "issue_comments w"]
  by (auto simp: first_tagged_def)

lemma post_new:
  "count_tagged tag w = 0 \<Longrightarrow>
   post_tagged_comment tag body w = create_issue_comment (full_body_for tag body) w"
  by (simp add: post_tagged_comment_def Let_def scan_comments_none count_tagged_0 tagged_def
      full_body_for_def)

lemma post_existing:
  "count_tagged tag w \<noteq> 0 \<Longrightarrow>
   post_tagged_comment tag body w =
     (if issue_comments w ! first_tagged tag w = full_body_for tag body then w
      else edit_comment (first_tagged tag w) (full_body_for tag body) w)"
  unfolding count_tagged_0
  by (simp add: post_tagged_comment_def Let_def scan_comments_found tagged_def
      full_body_for_def first_tagged_def)


lemma filter_update_same:
  "j < length xs \<Longrightarrow> P (xs ! j) \<Longrightarrow> P y \<Longrightarrow>
   length (filter P (xs[j := y])) = length (filter P xs)"
proof (induction xs arbitrary: j)
  case Nil
  then show ?case by simp
next
  case (Cons x xs)
  then show ?case by (cases j) auto
qed

lemma takeWhile_update_first:
  "length (takeWhile Q xs) < length xs \<Longrightarrow> \<not> Q y \<Longrightarrow>
   length (takeWhile Q (xs[length (takeWhile Q xs) := y])) = length (takeWhile Q xs)"
  by (induction xs) auto

lemma takeWhile_snoc_first:
  "\<forall>x \<in> set xs. Q x \<Longrightarrow> \<not> Q y \<Longrightarrow> length (takeWhile Q (xs @ [y])) = length xs"
  by (induction xs) auto

lemma post_count: "count_tagged tag (post_tagged_comment tag body w) = max 1 (count_tagged tag w)"
proof (cases "count_tagged tag w = 0")
  case True
  then show ?thesis
    by (simp add: post_new create_issue_comment_def count_tagged_def tagged_full_body)
next
  case False
  have "count_tagged tag (edit_comment (first_tagged tag w) (full_body_for tag body) w)
          = count_tagged tag w"
    using first_tagged_lt[OF False] first_tagged_tagged[OF False]
    by (simp add: edit_comment_def count_tagged_def filter_update_same tagged_full_body)
  with False show ?thesis by (simp add: post_existing)
qed

lemma post_first:
  "first_tagged tag (post_tagged_comment tag body w) =
     (if count_tagged tag w = 0 then length (issue_comments w) else first_tagged tag w)"
proof (cases "count_tagged tag w = 0")
  case True
  then have "\<forall>c \<in> set (issue_comments w). \<not> tagged tag c" by (simp add: count_tagged_0)
  then show ?thesis using True
    by (simp add: post_new create_issue_comment_def first_tagged_def takeWhile_snoc_first
        tagged_full_body)
next
  case False
  have "first_tagged tag (edit_comment (first_tagged tag w) (full_body_for tag body) w)
          = first_tagged tag w"
    using first_tagged_lt[OF False]
    by (simp add: edit_comment_def first_tagged_def takeWhile_update_first tagged_full_body)
  with False show ?thesis by (simp add: post_existing)
qed

lemma post_body:
  "issue_comments (post_tagged_comment tag body w) ! first_tagged tag (post_tagged_comment tag body w)
     = full_body_for tag body"
proof (cases "count_tagged tag w = 0")
  case True
  show ?thesis unfolding post_first using True
    by (simp add: post_new create_issue_comment_def)
next
  case False
  show ?thesis unfolding post_first using False first_tagged_lt[OF False]
    by (simp add: post_existing edit_comment_def)
qed

lemma post_again:
  "post_tagged_comment tag body' (post_tagged_comment tag body w) =
     (if body' = body then post_tagged_comment tag body w
      else edit_comment (first_tagged tag (post_tagged_comment tag body w))
             (full_body_for tag body') (post_tagged_comment tag body w))"
proof -
  have "count_tagged tag (post_tagged_comment tag body w) \<noteq> 0" by (simp add: post_count)
  then show ?thesis by (simp add: post_existing post_body full_body_inj)
qed

text \<open>
  C3: \<open>post_tagged_comment\<close> creates one comment when no comment of the pull request starts
  with the marker of the normalised tag, and otherwise rewrites the first such comment in
  place, sending an edit only when its body differs; it creates no comment when one with
  the marker exists, so the number of comments with the marker becomes one when it
  was zero and is unchanged otherwise. A second call with the same body changes nothing
  and sends no request; a later call with another body sends one edit of the existing
  comment and creates none.
\<close>

theorem post_tagged_comment_create_or_edit:
  "(count_tagged tag w = 0 \<longrightarrow>
      issue_comments (post_tagged_comment tag body w) = issue_comments w @ [full_body_for tag body] \<and>
      api_log (post_tagged_comment tag body w) = api_log w @ [CreateIssueComment (full_body_for tag body)])
   \<and> (count_tagged tag w \<noteq> 0 \<longrightarrow>
      first_tagged tag w < length (issue_comments w) \<and>
      tagged tag (issue_comments w ! first_tagged tag w) \<and>
      issue_comments (post_tagged_comment tag body w)
        = (issue_comments w)[first_tagged tag w := full_body_for tag body] \<and>
      api_log (post_tagged_comment tag body w)
        = api_log w @ (if issue_comments w ! first_tagged tag w = full_body_for tag body then []
                       else [EditComment (first_tagged tag w) (full_body_for tag body)]))
   \<and> count_tagged tag (post_tagged_comment tag body w) = max 1 (count_tagged tag w)
   \<and> post_tagged_comment tag body (post_tagged_comment tag body w) = post_tagged_comment tag body w
   \<and> length (issue_comments (post_tagged_comment tag body' (post_tagged_comment tag body w)))
        = length (issue_comments (post_tagged_comment tag body w))
   \<and> count_tagged tag (post_tagged_comment tag body' (post_tagged_comment tag body w))
        = count_tagged tag (post_tagged_comment tag body w)
   \<and> api_log (post_tagged_comment tag body' (post_tagged_comment tag body w))
        = api_log (post_tagged_comment tag body w) @
          (if body' = body then []
           else [EditComment (first_tagged tag (post_tagged_comment tag body w))
                   (full_body_for tag body')])"
proof (intro conjI impI)
  assume z: "count_tagged tag w = 0"
  show "issue_comments (post_tagged_comment tag body w) = issue_comments w @ [full_body_for tag body]"
    by (simp add: post_new[OF z] create_issue_comment_def)
  show "api_log (post_tagged_comment tag body w) = api_log w @ [CreateIssueComment (full_body_for tag body)]"
    by (simp add: post_new[OF z] create_issue_comment_def)
next
  assume nz: "count_tagged tag w \<noteq> 0"
  show "first_tagged tag w < length (issue_comments w)" by (rule first_tagged_lt[OF nz])
  show "tagged tag (issue_comments w ! first_tagged tag w)" by (rule first_tagged_tagged[OF nz])
  show "issue_comments (post_tagged_comment tag body w)
        = (issue_comments w)[first_tagged tag w := full_body_for tag body]"
  proof (cases "issue_comments w ! first_tagged tag w = full_body_for tag body")
    case True
    have "(issue_comments w)[first_tagged tag w := issue_comments w ! first_tagged tag w]
            = issue_comments w"
      by (rule list_update_id)
    with True show ?thesis by (simp add: post_existing[OF nz])
  next
    case False
    then show ?thesis by (simp add: post_existing[OF nz] edit_comment_def)
  qed
  show "api_log (post_tagged_comment tag body w)
        = api_log w @ (if issue_comments w ! first_tagged tag w = full_body_for tag body then []
                       else [EditComment (first_tagged tag w) (full_body_for tag body)])"
    by (simp add: post_existing[OF nz] edit_comment_def)
next
  show "count_tagged tag (post_tagged_comment tag body w) = max 1 (count_tagged tag w)"
    by (rule post_count)
  show "post_tagged_comment tag body (post_tagged_comment tag body w) = post_tagged_comment tag body w"
    by (simp add: post_again)
  show "length (issue_comments (post_tagged_comment tag body' (post_tagged_comment tag body w)))
        = length (issue_comments (post_tagged_comment tag body w))"
    by (simp add: post_again edit_comment_def)
  show "count_tagged tag (post_tagged_comment tag body' (post_tagged_comment tag body w))
        = count_tagged tag (post_tagged_comment tag body w)"
    by (simp add: post_count)
  show "api_log (post_tagged_comment tag body' (post_tagged_comment tag body w))
        = api_log (post_tagged_comment tag body w) @
          (if body' = body then []
           else [EditComment (first_tagged tag (post_tagged_comment tag body w))
                   (full_body_for tag body')])"
    by (simp add: post_again edit_comment_def)
qed


theorem post_tagged_comment_create_or_edit_witness:
  "count_tagged ''jira'' w_empty = 0
   \<and> issue_comments (post_tagged_comment ''jira'' ''Connected Jira: x'' w_empty)
       = [full_body_for ''jira'' ''Connected Jira: x'']
   \<and> count_tagged ''jira'' w_commented \<noteq> 0
   \<and> issue_comments (post_tagged_comment ''jira'' ''Connected Jira: x'' w_commented)
       = (issue_comments w_commented)
           [first_tagged ''jira'' w_commented := full_body_for ''jira'' ''Connected Jira: x'']"
proof -
  have a: "count_tagged ''jira'' w_empty = 0"
    by (simp add: count_tagged_def w_empty_def)
  have b: "count_tagged ''jira'' w_commented \<noteq> 0"
    by (simp add: count_tagged_def w_commented_def w_empty_def tagged_def html_tag_of_def
        normalize_tag_map startswith_def in_cls_def tag_chars_def)
  have c: "issue_comments w_empty = []" by (simp add: w_empty_def)
  from a b c
    post_tagged_comment_create_or_edit[of "''jira''" w_empty "''Connected Jira: x''"]
    post_tagged_comment_create_or_edit[of "''jira''" w_commented "''Connected Jira: x''"]
  show ?thesis by simp
qed

section \<open>Properties of the draft status\<close>

lemma check_wip_eq:
  "check_wip ev w =
     (0, if Some (is_draft ev) = was_failing w then w
         else w\<lparr>commit_statuses := draft_status (is_draft ev) # commit_statuses w,
                api_log := api_log w @ [CreateStatus (draft_status (is_draft ev))]\<rparr>)"
  by (auto simp: check_wip_def is_draft_def was_failing_def draft_status_def create_status_def
      get_pr_labels_def WIP_LABEL_def WIP_CONTEXT_def Let_def split: option.splits)

lemma was_failing_after_write:
  "was_failing (w\<lparr>commit_statuses := draft_status d # commit_statuses w, api_log := l\<rparr>) = Some d"
  by (simp add: was_failing_def draft_status_def)

text \<open>
  C2: \<open>check_wip\<close> returns 0; it sends a status under the context \<open>Draft\<close> exactly when
  the draft flag differs from the recorded flag, and nothing otherwise. A second call with
  the same labels returns 0 and leaves everything as it is, so the two calls together
  send at most one status.
\<close>

theorem check_wip_sync:
  "fst (check_wip ev w) = 0
   \<and> api_log (snd (check_wip ev w))
       = api_log w @ (if Some (is_draft ev) = was_failing w then []
                      else [CreateStatus (draft_status (is_draft ev))])
   \<and> st_context (draft_status (is_draft ev)) = ''Draft''
   \<and> check_wip ev (snd (check_wip ev w)) = (0, snd (check_wip ev w))
   \<and> length (api_log (snd (check_wip ev (snd (check_wip ev w))))) \<le> Suc (length (api_log w))"
proof -
  have second: "check_wip ev (snd (check_wip ev w)) = (0, snd (check_wip ev w))"
  proof (cases "Some (is_draft ev) = was_failing w")
    case True
    then show ?thesis by (simp add: check_wip_eq)
  next
    case False
    let ?w' = "w\<lparr>commit_statuses := draft_status (is_draft ev) # commit_statuses w,
                  api_log := api_log w @ [CreateStatus (draft_status (is_draft ev))]\<rparr>"
    from False have first: "check_wip ev w = (0, ?w')" by (simp add: check_wip_eq)
    have "was_failing ?w' = Some (is_draft ev)" by (rule was_failing_after_write)
    then have "check_wip ev ?w' = (0, ?w')" by (simp add: check_wip_eq[of ev ?w'])
    with first show ?thesis by simp
  qed
  show ?thesis unfolding second
    by (simp add: check_wip_eq) (simp add: draft_status_def WIP_CONTEXT_def)
qed



section \<open>Properties of the event cache\<close>

lemma call_loaded:
  "event_slot c \<noteq> JNull \<Longrightarrow> CachedGitHubActionEvent_call rd c = (Inr (event_slot c), c)"
  by (simp add: CachedGitHubActionEvent_call_def)

lemma subscript_not_None: "subscript v key = Inr p \<Longrightarrow> v \<noteq> JNull"
  by (auto simp: subscript_def)

lemma access_loaded:
  "subscript (event_slot c) ''pull_request'' = Inr p \<Longrightarrow>
   GH_EVENT_pull_request rd c = (Inr (event_slot c, p), c)"
  by (simp add: GH_EVENT_pull_request_def call_loaded subscript_not_None)

lemma accesses_loaded:
  "subscript (event_slot c) ''pull_request'' = Inr p \<Longrightarrow>
   accesses rd n c = (Inr (replicate n (event_slot c, p)), c)"
  by (induction n) (simp_all add: access_loaded)

lemma access_state:
  "event_slot c \<noteq> JNull \<Longrightarrow> snd (GH_EVENT_pull_request rd c) = c"
  by (simp add: GH_EVENT_pull_request_def call_loaded split: sum.splits)

lemma accesses_state:
  "event_slot c \<noteq> JNull \<Longrightarrow> snd (accesses rd n c) = c"
proof (induction n)
  case 0
  show ?case by simp
next
  case (Suc n)
  obtain r c' where a: "GH_EVENT_pull_request rd c = (r, c')"
    by (cases "GH_EVENT_pull_request rd c")
  with access_state[OF Suc.prems, of rd] have c': "c' = c" by simp
  show ?case using a c' Suc.IH[OF Suc.prems]
    by (cases r; cases "accesses rd n c") (auto split: sum.splits)
qed

lemma first_call:
  "CachedGitHubActionEvent_call rd CachedGitHubActionEvent_init = (Inr v, c) \<Longrightarrow>
   rd 0 = Inr v \<and> event_slot c = v \<and> file_reads c = 1"
  by (auto simp: CachedGitHubActionEvent_call_def CachedGitHubActionEvent_init_def
      split: sum.splits)

lemma first_access:
  assumes "GH_EVENT_pull_request rd CachedGitHubActionEvent_init = (Inr (v, p), c)"
  shows "event_slot c = v \<and> file_reads c = 1 \<and> subscript v ''pull_request'' = Inr p"
proof -
  from assms have "CachedGitHubActionEvent_call rd CachedGitHubActionEvent_init = (Inr v, c)"
    and "subscript v ''pull_request'' = Inr p"
    by (auto simp: GH_EVENT_pull_request_def split: prod.splits sum.splits)
  with first_call[of rd v c] show ?thesis by simp
qed

lemma reads_at_most_once:
  "file_reads (snd (accesses rd n CachedGitHubActionEvent_init)) \<le> 1"
proof (cases n)
  case 0
  then show ?thesis by (simp add: CachedGitHubActionEvent_init_def)
next
  case (Suc m)
  obtain r c where a: "GH_EVENT_pull_request rd CachedGitHubActionEvent_init = (r, c)"
    by (cases "GH_EVENT_pull_request rd CachedGitHubActionEvent_init")
  have reads: "file_reads c = 1"
    using a
    by (auto simp: GH_EVENT_pull_request_def CachedGitHubActionEvent_call_def
        CachedGitHubActionEvent_init_def split: sum.splits)
  show ?thesis
  proof (cases r)
    case (Inl e)
    with a Suc reads show ?thesis by simp
  next
    case (Inr vp)
    obtain v p where vp: "vp = (v, p)" by (cases vp)
    from first_access[of rd v p c] a Inr vp
    have "event_slot c = v" "subscript v ''pull_request'' = Inr p" by simp_all
    then have "event_slot c \<noteq> JNull" using subscript_not_None by blast
    from accesses_state[OF this, of rd m] have "snd (accesses rd m c) = c" .
    then show ?thesis using a Inr Suc reads
      by (cases "accesses rd m c") (auto split: sum.splits)
  qed
qed

text \<open>
  C8: in a process, however many times the module reads the event, the payload file is
  read at most once; the first call of the cache reads the file and stores the parsed
  value, and once the first access has returned, every later call returns the stored value
  and leaves the cache as it is, without reading the file. (A payload \<^verbatim>\<open>null\<close> is stored as
  \<^verbatim>\<open>None\<close>, the mark of an empty cache; the subscription of \<^verbatim>\<open>None\<close> raises, so no later
  call follows it.)
\<close>

theorem event_read_at_most_once:
  "file_reads (snd (accesses rd n CachedGitHubActionEvent_init)) \<le> 1
   \<and> (\<forall>v c. CachedGitHubActionEvent_call rd CachedGitHubActionEvent_init = (Inr v, c) \<longrightarrow>
         rd 0 = Inr v \<and> event_slot c = v \<and> file_reads c = 1)
   \<and> (\<forall>v p c. GH_EVENT_pull_request rd CachedGitHubActionEvent_init = (Inr (v, p), c) \<longrightarrow>
         file_reads c = 1 \<and>
         CachedGitHubActionEvent_call rd c = (Inr v, c) \<and>
         accesses rd n c = (Inr (replicate n (v, p)), c))"
proof (intro conjI allI impI)
  show "file_reads (snd (accesses rd n CachedGitHubActionEvent_init)) \<le> 1"
    by (rule reads_at_most_once)
next
  fix v c
  assume "CachedGitHubActionEvent_call rd CachedGitHubActionEvent_init = (Inr v, c)"
  from first_call[OF this]
  show "rd 0 = Inr v" "event_slot c = v" "file_reads c = 1" by simp_all
next
  fix v p c
  assume "GH_EVENT_pull_request rd CachedGitHubActionEvent_init = (Inr (v, p), c)"
  from first_access[OF this]
  have c: "event_slot c = v" "file_reads c = 1" "subscript v ''pull_request'' = Inr p"
    by simp_all
  then have nn: "event_slot c \<noteq> JNull" using subscript_not_None by blast
  show "file_reads c = 1" by (rule c(2))
  show "CachedGitHubActionEvent_call rd c = (Inr v, c)" using call_loaded[OF nn] c(1) by simp
  show "accesses rd n c = (Inr (replicate n (v, p)), c)"
    using accesses_loaded[of c p rd n] c by simp
qed

theorem event_read_at_most_once_witness:
  "GH_EVENT_pull_request event_file CachedGitHubActionEvent_init
     = (Inr (event_json, JObj [(''number'', JNum 7), (''title'', JStr ''JIRA-42: fix'')]),
        \<lparr>event_slot = event_json, file_reads = 1\<rparr>)
   \<and> accesses event_file 3 \<lparr>event_slot = event_json, file_reads = 1\<rparr>
       = (Inr (replicate 3 (event_json, JObj [(''number'', JNum 7), (''title'', JStr ''JIRA-42: fix'')])),
          \<lparr>event_slot = event_json, file_reads = 1\<rparr>)"
proof -
  have a: "GH_EVENT_pull_request event_file CachedGitHubActionEvent_init
     = (Inr (event_json, JObj [(''number'', JNum 7), (''title'', JStr ''JIRA-42: fix'')]),
        \<lparr>event_slot = event_json, file_reads = 1\<rparr>)"
    by (simp add: GH_EVENT_pull_request_def CachedGitHubActionEvent_call_def
        CachedGitHubActionEvent_init_def event_file_def event_json_def subscript_def)
  from event_read_at_most_once[of event_file 3] a show ?thesis by blast
qed

section \<open>Properties of the check-run request\<close>

text \<open>
  C9: \<open>annotate_check\<close> sends one POST to the check-runs URL, and the request carries the
  whole list of annotations, whatever its length.
\<close>

theorem annotate_check_single_post:
  "api_log (snd (annotate_check env ev check_name success anns w))
     = api_log w @ [Post (ev_head_repo_url ev @ ''/check-runs'') (post_data ev success anns)]
   \<and> cr_output_annotations (post_data ev success anns) = anns
   \<and> length (cr_output_annotations (post_data ev success anns)) = length anns"
  by (simp add: annotate_check_def Let_def check_url_def post_data_def)

section \<open>Properties of the lint runner\<close>



















text \<open>
  C6, as amended: when the loop over the files completes, \<open>lint\<close> removes the temporary
  directory once and it does not exist afterwards; when the loop raises (a notebook that
  does not convert, linter output that does not parse), \<open>lint\<close> raises the same error and
  the directory is still there.
\<close>

theorem lint_tempdir_released:
  "(\<forall>acc. lint_files env checks_api (matching_files env ext) \<lparr>bad = [], annotations = []\<rparr> = Inr acc \<longrightarrow>
      rmtree_log (snd (lint env ev ext checks_api w)) = rmtree_log w @ [mkdtemp env] \<and>
      mkdtemp env \<notin> set (tempdirs (snd (lint env ev ext checks_api w))))
   \<and> (\<forall>e. lint_files env checks_api (matching_files env ext) \<lparr>bad = [], annotations = []\<rparr> = Inl e \<longrightarrow>
      lint env ev ext checks_api w = (Inl e, w\<lparr>tempdirs := mkdtemp env # tempdirs w\<rparr>))"
  by (auto simp: lint_def Let_def rmtree_def make_tempdir_def annotate_check_def split: sum.splits)


text \<open>
  C6 as stated fails when the conversion of a notebook fails: \<open>lint\<close> raises, \<open>rmtree\<close> has
  not been called and the temporary directory exists.
\<close>

theorem lint_tempdir_left_on_conversion_failure:
  "fst (lint env_nb ev_plain [''*.ipynb''] True w_empty)
     = Inl (RuntimeError ''Notebook conversion failed'')
   \<and> rmtree_log (snd (lint env_nb ev_plain [''*.ipynb''] True w_empty)) = []
   \<and> mkdtemp env_nb \<in> set (tempdirs (snd (lint env_nb ev_plain [''*.ipynb''] True w_empty)))"
  by code_simp

lemma lint_files_env_py:
  "lint_files env_py True (matching_files env_py [''*.py'']) \<lparr>bad = [], annotations = []\<rparr>
     = Inr acc_py"
  by code_simp




theorem lint_tempdir_released_witness:
  "lint_files env_py True (matching_files env_py [''*.py'']) \<lparr>bad = [], annotations = []\<rparr>
     = Inr acc_py
   \<and> rmtree_log (snd (lint env_py ev_plain [''*.py''] True w_empty)) = [mkdtemp env_py]
   \<and> mkdtemp env_py \<notin> set (tempdirs (snd (lint env_py ev_plain [''*.py''] True w_empty)))"
proof -
  have c: "rmtree_log w_empty = []" by (simp add: w_empty_def)
  from lint_tempdir_released[of env_py True "[''*.py'']" ev_plain w_empty] c lint_files_env_py
  show ?thesis by simp
qed

end
